theory Spec2Isabelle
  imports Main
begin

section \<open>Time values and their text in the database\<close>

text \<open>
  A Go \<^verbatim>\<open>time.Time\<close> is an instant, in nanoseconds since the Unix epoch, together with a
  location; the location gives, for every instant (in seconds), the offset from UTC in
  seconds that is in force there. \<^verbatim>\<open>t.Add(d)\<close> moves the instant and keeps the location.
\<close>

record time =
  unix_nano :: int
  loc :: "int \<Rightarrow> int"

definition Add :: "time \<Rightarrow> int \<Rightarrow> time" where
  "Add t d = t\<lparr>unix_nano := unix_nano t + d\<rparr>"

text \<open>\<^verbatim>\<open>time.Unix(sec, nsec).In(l)\<close>, and the location \<^verbatim>\<open>time.UTC\<close>.\<close>

definition Unix :: "int \<Rightarrow> int \<Rightarrow> (int \<Rightarrow> int) \<Rightarrow> time" where
  "Unix sec nsec l = \<lparr>unix_nano = sec * 1000000000 + nsec, loc = l\<rparr>"

definition UTC :: "int \<Rightarrow> int" where
  "UTC sec = 0"

text \<open>
  A location that goes from -04:00 to -05:00 at 2024-11-03 06:00:00 UTC, as
  \<^verbatim>\<open>America/New_York\<close> does at the end of daylight saving time.
\<close>

definition fall_back :: "int \<Rightarrow> int" where
  "fall_back sec = (if sec < 1730613600 then - 14400 else - 18000)"

text \<open>The decimal digits of a number that is not negative.\<close>

function decimal :: "int \<Rightarrow> string" where
  "decimal n =
     (if n < 10 then [char_of (48 + n)] else decimal (n div 10) @ [char_of (48 + n mod 10)])"
  by pat_completeness auto
termination
  by (relation "measure nat") auto

text \<open>
  The driver \<^verbatim>\<open>go-sqlite3\<close> binds a \<^verbatim>\<open>time.Time\<close> parameter as the text
  \<^verbatim>\<open>v.Format("2006-01-02 15:04:05.999999999-07:00")\<close>: the date and the clock time in the
  location of the value, the fraction of the second without its trailing zeros (nothing when
  it is zero), and the offset from UTC. \<open>appendInt\<close> is the zero-padded number of the Go
  formatter, \<open>civil\<close> the Gregorian date of a day number counted from 1970-01-01.
\<close>

definition appendInt :: "int \<Rightarrow> nat \<Rightarrow> string" where
  "appendInt x width =
     (if x < 0 then CHR ''-'' # replicate (width - length (decimal (- x))) CHR ''0'' @ decimal (- x)
      else replicate (width - length (decimal x)) CHR ''0'' @ decimal x)"

definition civil :: "int \<Rightarrow> int \<times> int \<times> int" where
  "civil days =
     (let z = days + 719468;
          era = z div 146097;
          doe = z mod 146097;
          yoe = (doe - doe div 1460 + doe div 36524 - doe div 146096) div 365;
          doy = doe - (365 * yoe + yoe div 4 - yoe div 100);
          mp = (5 * doy + 2) div 153;
          d = doy - (153 * mp + 2) div 5 + 1;
          m = (if mp < 10 then mp + 3 else mp - 9);
          y = yoe + era * 400 + (if m \<le> 2 then 1 else 0)
      in (y, m, d))"

definition appendNano :: "int \<Rightarrow> string" where
  "appendNano nanosec =
     (if nanosec = 0 then []
      else CHR ''.'' # rev (dropWhile (\<lambda>c. c = CHR ''0'') (rev (appendInt nanosec 9))))"

definition appendZone :: "int \<Rightarrow> string" where
  "appendZone offset =
     (let zone = (if offset < 0 then - ((- offset) div 60) else offset div 60) in
        (if zone < 0
         then CHR ''-'' # appendInt ((- zone) div 60) 2 @ CHR '':'' # appendInt ((- zone) mod 60) 2
         else CHR ''+'' # appendInt (zone div 60) 2 @ CHR '':'' # appendInt (zone mod 60) 2))"

definition sqlite_timestamp :: "time \<Rightarrow> string" where
  "sqlite_timestamp t =
     (let sec = unix_nano t div 1000000000;
          nanosec = unix_nano t mod 1000000000;
          offset = loc t sec;
          wall = sec + offset;
          sod = wall mod 86400 in
        (case civil (wall div 86400) of
           (year, month, day) \<Rightarrow>
             appendInt year 4 @ ''-'' @ appendInt month 2 @ ''-'' @ appendInt day 2 @ '' ''
             @ appendInt (sod div 3600) 2 @ '':'' @ appendInt (sod mod 3600 div 60) 2 @ '':''
             @ appendInt (sod mod 60) 2 @ appendNano nanosec @ appendZone offset))"

text \<open>
  The column \<^verbatim>\<open>last_seen TIMESTAMP\<close> has numeric affinity; a text that is not a number is
  stored as text, and SQLite compares two texts byte by byte, a proper prefix being the
  smaller one.
\<close>

fun text_less :: "string \<Rightarrow> string \<Rightarrow> bool" where
  "text_less [] [] = False"
| "text_less [] (y # ys) = True"
| "text_less (x # xs) [] = False"
| "text_less (x # xs) (y # ys) =
     (if (of_char x :: nat) < of_char y then True
      else if (of_char y :: nat) < of_char x then False
      else text_less xs ys)"

section \<open>The lease store\<close>

text \<open>
  The table \<^verbatim>\<open>identifiers\<close> created by \<^verbatim>\<open>initDB\<close> has the columns
  \<^verbatim>\<open>id INTEGER PRIMARY KEY AUTOINCREMENT\<close>, \<^verbatim>\<open>identifier TEXT NOT NULL UNIQUE\<close>,
  \<^verbatim>\<open>locked_by TEXT\<close> and \<^verbatim>\<open>last_seen TIMESTAMP\<close>. A row is a record of the three
  data columns, a nullable column an option. The table is the list of its rows in ascending
  \<^verbatim>\<open>id\<close>, the order in which a scan of the table meets them. The column \<^verbatim>\<open>last_seen\<close>
  holds the text that the driver binds for a time value, and every \<^verbatim>\<open>time.Now()\<close> of the
  source is a parameter \<open>now\<close> of the model. The database is taken to answer every statement: the
  branches of the handlers for a failing database connection are not modelled. A handler is
  modelled from the decoded request on; the checks of the HTTP method and of the JSON syntax
  come before it. Requests are handled one after the other.
\<close>

record row =
  "identifier" :: string
  locked_by :: "string option"
  last_seen :: "string option"

type_synonym store = "row list"

text \<open>The \<^verbatim>\<open>UNIQUE\<close> constraint on the column \<^verbatim>\<open>identifier\<close>.\<close>

definition unique_identifier :: "store \<Rightarrow> bool" where
  "unique_identifier s \<longleftrightarrow> distinct (map identifier s)"

text \<open>
  What a handler writes to the client: the status line together with the part of the body
  that carries data. \<open>Conflict expected_id your_id\<close> is the 409 answer of
  \<^verbatim>\<open>livenessHandler\<close> with its two JSON fields.
\<close>

datatype response =
    AllocateResponse string
  | StatusOK
  | ReleaseSuccess
  | BadRequest
  | NotFound
  | Conflict string string
  | ServiceUnavailable
  | InternalServerError

text \<open>
  \<^verbatim>\<open>db.QueryRow(...).Scan(&x)\<close> with \<open>x\<close> a Go \<^verbatim>\<open>string\<close>: no row gives
  \<^verbatim>\<open>sql.ErrNoRows\<close>; otherwise the first row is scanned, and a \<^verbatim>\<open>NULL\<close> column cannot be
  converted to a \<^verbatim>\<open>string\<close>, which is an error other than \<^verbatim>\<open>sql.ErrNoRows\<close>.
\<close>

datatype scan = ErrNoRows | ScanError | Scanned string

fun scan_string :: "string option list \<Rightarrow> scan" where
  "scan_string [] = ErrNoRows"
| "scan_string (None # rest) = ScanError"
| "scan_string (Some v # rest) = Scanned v"

subsection \<open>Seeding\<close>

text \<open>
  \<^verbatim>\<open>INSERT OR IGNORE INTO identifiers (identifier) VALUES (?)\<close>: a new free row at the end
  of the table, unless the value is there already.
\<close>

definition insert_or_ignore :: "string \<Rightarrow> store \<Rightarrow> store" where
  "insert_or_ignore v s =
     (if v \<in> set (map identifier s) then s
      else s @ [\<lparr>identifier = v, locked_by = None, last_seen = None\<rparr>])"

text \<open>The loop of \<^verbatim>\<open>preloadIdentifiers\<close> over the expanded identifiers.\<close>

definition preloadIdentifiers :: "string list \<Rightarrow> store \<Rightarrow> store" where
  "preloadIdentifiers expandedIdentifiers s = fold insert_or_ignore expandedIdentifiers s"

subsection \<open>Allocation\<close>

text \<open>
  Step 1 of \<^verbatim>\<open>allocateHandler\<close>:
  \<^verbatim>\<open>SELECT identifier FROM identifiers WHERE locked_by = ?\<close>, scanned into a string.
\<close>

definition existing_identifier :: "string \<Rightarrow> store \<Rightarrow> scan" where
  "existing_identifier client_id s =
     scan_string (map (\<lambda>r. Some (identifier r)) (filter (\<lambda>r. locked_by r = Some client_id) s))"

text \<open>
  Step 2: the subquery
  \<^verbatim>\<open>SELECT identifier FROM identifiers WHERE locked_by IS NULL LIMIT 1\<close>, and the
  \<^verbatim>\<open>UPDATE ... SET locked_by = ?, last_seen = ? WHERE identifier IN (...) RETURNING identifier\<close>
  around it: the rows it writes, and the rows it returns.
\<close>

definition free_limit_1 :: "store \<Rightarrow> string list" where
  "free_limit_1 s = take 1 (map identifier (filter (\<lambda>r. locked_by r = None) s))"

definition claim_update :: "time \<Rightarrow> string \<Rightarrow> store \<Rightarrow> store" where
  "claim_update now client_id s =
     map (\<lambda>r. if identifier r \<in> set (free_limit_1 s)
              then r\<lparr>locked_by := Some client_id, last_seen := Some (sqlite_timestamp now)\<rparr>
              else r) s"

definition claim_returning :: "store \<Rightarrow> scan" where
  "claim_returning s =
     scan_string (map (\<lambda>r. Some (identifier r))
                      (filter (\<lambda>r. identifier r \<in> set (free_limit_1 s)) s))"

text \<open>
  The two steps of \<^verbatim>\<open>allocateHandler\<close> on the store (the spec's Allocate), and the handler:
  the check of the request, then the two steps.
\<close>

definition allocate :: "time \<Rightarrow> string \<Rightarrow> store \<Rightarrow> response \<times> store" where
  "allocate now client_id s =
     (case existing_identifier client_id s of
        Scanned existingIdentifier \<Rightarrow> (AllocateResponse existingIdentifier, s)
      | ScanError \<Rightarrow> (InternalServerError, s)
      | ErrNoRows \<Rightarrow>
          (case claim_returning s of
             ErrNoRows \<Rightarrow> (ServiceUnavailable, claim_update now client_id s)
           | ScanError \<Rightarrow> (InternalServerError, claim_update now client_id s)
           | Scanned newIdentifier \<Rightarrow>
               (AllocateResponse newIdentifier, claim_update now client_id s)))"

definition allocateHandler :: "time \<Rightarrow> string \<Rightarrow> store \<Rightarrow> response \<times> store" where
  "allocateHandler now client_id s =
     (if client_id = [] then (BadRequest, s) else allocate now client_id s)"

subsection \<open>Renewal\<close>

text \<open>
  \<^verbatim>\<open>SELECT locked_by FROM identifiers WHERE identifier = ?\<close>, scanned into the Go string
  \<^verbatim>\<open>dbClientID\<close>.
\<close>

definition db_client_id :: "string \<Rightarrow> store \<Rightarrow> scan" where
  "db_client_id v s = scan_string (map locked_by (filter (\<lambda>r. identifier r = v) s))"

text \<open>
  \<^verbatim>\<open>UPDATE identifiers SET last_seen = ? WHERE identifier = ? AND locked_by = ?\<close>.
\<close>

definition liveness_update :: "time \<Rightarrow> string \<Rightarrow> string \<Rightarrow> store \<Rightarrow> store" where
  "liveness_update now client_id v s =
     map (\<lambda>r. if identifier r = v \<and> locked_by r = Some client_id
              then r\<lparr>last_seen := Some (sqlite_timestamp now)\<rparr> else r) s"

text \<open>
  The part of \<^verbatim>\<open>livenessHandler\<close> on the store (the spec's Renew), and the handler: the
  check of the request, then that part.
\<close>

definition liveness :: "time \<Rightarrow> string \<Rightarrow> string \<Rightarrow> store \<Rightarrow> response \<times> store" where
  "liveness now client_id v s =
     (case db_client_id v s of
        ErrNoRows \<Rightarrow> (NotFound, s)
      | ScanError \<Rightarrow> (InternalServerError, s)
      | Scanned dbClientID \<Rightarrow>
          (if dbClientID \<noteq> client_id then (Conflict dbClientID client_id, s)
           else (StatusOK, liveness_update now client_id v s)))"

definition livenessHandler :: "time \<Rightarrow> string \<Rightarrow> string \<Rightarrow> store \<Rightarrow> response \<times> store" where
  "livenessHandler now client_id v s =
     (if client_id = [] \<or> v = [] then (BadRequest, s) else liveness now client_id v s)"

subsection \<open>Release\<close>

text \<open>
  \<^verbatim>\<open>UPDATE identifiers SET locked_by = NULL, last_seen = NULL
  WHERE identifier = ? AND locked_by = ?\<close>; the handler checks neither field of the request
  and answers 200 with the status "success".
\<close>

definition releaseHandler :: "string \<Rightarrow> string \<Rightarrow> store \<Rightarrow> response \<times> store" where
  "releaseHandler client_id v s =
     (ReleaseSuccess,
      map (\<lambda>r. if identifier r = v \<and> locked_by r = Some client_id
               then r\<lparr>locked_by := None, last_seen := None\<rparr> else r) s)"

subsection \<open>The sweep\<close>

text \<open>
  One tick of the loop of \<^verbatim>\<open>releaseStaleIdentifiers\<close>:
  \<^verbatim>\<open>threshold := time.Now().Add(-config.Server.StaleTimeout)\<close>, then
  \<^verbatim>\<open>UPDATE identifiers SET locked_by = NULL, last_seen = NULL
  WHERE last_seen < ? AND locked_by IS NOT NULL\<close> with the threshold bound as its text. The
  comparison is the one of the stored text with that text; a comparison with \<^verbatim>\<open>NULL\<close> is not
  true in SQL. The stale timeout is a \<^verbatim>\<open>time.Duration\<close>, in nanoseconds. The first component
  of the result is \<^verbatim>\<open>rowsAffected\<close>.
\<close>

definition is_stale :: "string \<Rightarrow> row \<Rightarrow> bool" where
  "is_stale threshold r \<longleftrightarrow>
     (case last_seen r of None \<Rightarrow> False | Some t \<Rightarrow> text_less t threshold)
     \<and> locked_by r \<noteq> None"

definition releaseStaleIdentifiers :: "time \<Rightarrow> int \<Rightarrow> store \<Rightarrow> nat \<times> store" where
  "releaseStaleIdentifiers now stale_timeout s =
     (let threshold = sqlite_timestamp (Add now (- stale_timeout)) in
        (length (filter (is_stale threshold) s),
         map (\<lambda>r. if is_stale threshold r
                  then r\<lparr>locked_by := None, last_seen := None\<rparr> else r) s))"

subsection \<open>Runs of the service\<close>

text \<open>
  The requests the service handles, one at a time, and the state they lead to from the
  seeded table.
\<close>

datatype request =
    Allocate time string
  | Renew time string string
  | Release string string
  | ReclaimStale time int

fun handle :: "request \<Rightarrow> store \<Rightarrow> store" where
  "handle (Allocate now client_id) s = snd (allocateHandler now client_id s)"
| "handle (Renew now client_id v) s = snd (livenessHandler now client_id v s)"
| "handle (Release client_id v) s = snd (releaseHandler client_id v s)"
| "handle (ReclaimStale now stale_timeout) s = snd (releaseStaleIdentifiers now stale_timeout s)"

definition run :: "string list \<Rightarrow> request list \<Rightarrow> store" where
  "run expandedIdentifiers requests = fold handle requests (preloadIdentifiers expandedIdentifiers [])"

subsection \<open>Predicates on the table\<close>

text \<open>The holders of the leased rows, in table order, one entry for each leased row.\<close>

definition holders :: "store \<Rightarrow> string list" where
  "holders s = concat (map (\<lambda>r. case locked_by r of None \<Rightarrow> [] | Some h \<Rightarrow> [h]) s)"

text \<open>At most one row has a given holder value.\<close>

definition at_most_one_per_holder :: "store \<Rightarrow> bool" where
  "at_most_one_per_holder s \<longleftrightarrow> (\<forall>h. length (filter (\<lambda>r. locked_by r = Some h) s) \<le> 1)"

text \<open>A row has a holder exactly when it has a timestamp.\<close>

definition holder_iff_timestamp :: "store \<Rightarrow> bool" where
  "holder_iff_timestamp s \<longleftrightarrow> (\<forall>r\<in>set s. locked_by r = None \<longleftrightarrow> last_seen r = None)"

text \<open>No row is leased to the empty string.\<close>

definition no_empty_holder :: "store \<Rightarrow> bool" where
  "no_empty_holder s \<longleftrightarrow> (\<forall>r\<in>set s. locked_by r \<noteq> Some [])"


section \<open>The identifier patterns\<close>

text \<open>
  \<^verbatim>\<open>expandPattern\<close> uses four functions of the Go library, modelled here on byte strings.
  \<^verbatim>\<open>strings.Index(s, c)\<close> for a one-byte \<open>c\<close>: the position of its first occurrence, or -1.
\<close>

fun Index :: "string \<Rightarrow> char \<Rightarrow> int" where
  "Index [] c = - 1"
| "Index (x # xs) c =
     (if x = c then 0 else (let i = Index xs c in if i = - 1 then - 1 else i + 1))"

text \<open>
  \<^verbatim>\<open>strings.Split(s, sep)\<close> for a one-byte separator: the pieces of \<open>s\<close> between the
  separators, one more than there are separators.
\<close>

fun Split :: "string \<Rightarrow> char \<Rightarrow> string list" where
  "Split [] sep = [[]]"
| "Split (x # xs) sep =
     (if x = sep then [] # Split xs sep
      else (case Split xs sep of [] \<Rightarrow> [[x]] | p # ps \<Rightarrow> (x # p) # ps))"

text \<open>
  \<^verbatim>\<open>strconv.Atoi\<close>: an optional sign, then one decimal digit or more and nothing else;
  the value has to fit the 64-bit \<^verbatim>\<open>int\<close>. Every error is \<open>None\<close>.
\<close>

definition digit :: "char \<Rightarrow> int option" where
  "digit ch = (let n = of_char ch :: int in if 48 \<le> n \<and> n \<le> 57 then Some (n - 48) else None)"

fun digits_value :: "int \<Rightarrow> string \<Rightarrow> int option" where
  "digits_value n [] = Some n"
| "digits_value n (ch # rest) =
     (case digit ch of None \<Rightarrow> None | Some d \<Rightarrow> digits_value (n * 10 + d) rest)"

definition Atoi :: "string \<Rightarrow> int option" where
  "Atoi s =
     (case s of
        [] \<Rightarrow> None
      | s0 # rest \<Rightarrow>
          (let ds = (if s0 = CHR ''-'' \<or> s0 = CHR ''+'' then rest else s) in
             if ds = [] then None
             else (case digits_value 0 ds of
                     None \<Rightarrow> None
                   | Some n \<Rightarrow>
                       if s0 = CHR ''-''
                       then (if 2 ^ 63 < n then None else Some (- n))
                       else (if 2 ^ 63 \<le> n then None else Some n))))"

text \<open>The verb \<^verbatim>\<open>%d\<close> of \<^verbatim>\<open>fmt.Sprintf\<close>.\<close>

definition Sprintf_d :: "int \<Rightarrow> string" where
  "Sprintf_d i = (if i < 0 then CHR ''-'' # decimal (- i) else decimal i)"

text \<open>The largest value of the 64-bit \<^verbatim>\<open>int\<close>.\<close>

definition max_int :: int where
  "max_int = 2 ^ 63 - 1"

text \<open>
  \<^verbatim>\<open>expandPattern\<close>. The result \<open>None\<close> stands for a call that does not return: when
  \<^verbatim>\<open>endNum\<close> is the largest \<^verbatim>\<open>int\<close>, the condition \<^verbatim>\<open>i <= endNum\<close> of the loop holds for every
  \<^verbatim>\<open>i\<close> and \<^verbatim>\<open>i++\<close> wraps around. Otherwise the loop runs over \<open>[startNum..endNum]\<close>, and
  each round expands the suffix again, with the same result.
\<close>

function expandPattern :: "string \<Rightarrow> string list option" where
  "expandPattern pattern =
     (let start = Index pattern CHR ''[''; end' = Index pattern CHR '']'' in
        if start = - 1 \<or> end' = - 1 \<or> start > end' then Some [pattern]
        else
          (let prefix = take (nat start) pattern;
               rangePart = take (nat (end' - (start + 1))) (drop (nat (start + 1)) pattern);
               suffix = drop (nat (end' + 1)) pattern;
               rangeParts = Split rangePart CHR ''-'' in
             if length rangeParts \<noteq> 2 then Some [pattern]
             else
               (case Atoi (rangeParts ! 0) of
                  None \<Rightarrow> Some [pattern]
                | Some startNum \<Rightarrow>
                    (case Atoi (rangeParts ! 1) of
                       None \<Rightarrow> Some [pattern]
                     | Some endNum \<Rightarrow>
                         if startNum > endNum then Some [pattern]
                         else if endNum = max_int then None
                         else
                           (case expandPattern suffix of
                              None \<Rightarrow> None
                            | Some expandedSuffixes \<Rightarrow>
                                Some (concat (map (\<lambda>i. map (\<lambda>expSuffix.
                                        prefix @ Sprintf_d i @ expSuffix) expandedSuffixes)
                                      [startNum..endNum])))))))"
  by pat_completeness auto
termination
proof (relation "measure length")
  show "wf (measure length)" by simp
next
  fix pattern :: string and start end' prefix rangePart suffix
  assume a: "end' = Index pattern CHR '']''" "\<not> (start = - 1 \<or> end' = - 1 \<or> end' < start)"
    "suffix = drop (nat (end' + 1)) pattern"
  have "Index p c \<noteq> - 1 \<Longrightarrow> 0 \<le> Index p c \<and> Index p c < int (length p)" for p c
    by (induction p) (auto simp: Let_def split: if_splits)
  from this[of pattern "CHR '']''"] a show "(suffix, pattern) \<in> measure length"
    by auto
qed

text \<open>
  The first bracketed segment of a pattern is a well-formed range: the pattern reads
  \<open>pre[a-b]suf\<close>, where the first opening bracket and the first closing bracket of the
  pattern are the two shown, \<open>a\<close> and \<open>b\<close> hold no further hyphen, both are numbers as
  \<^verbatim>\<open>strconv.Atoi\<close> reads them, and the first is at most the second.
\<close>

definition well_formed_first_range :: "string \<Rightarrow> bool" where
  "well_formed_first_range p \<longleftrightarrow>
     (\<exists>pre a b suf x y.
        p = pre @ CHR ''['' # a @ CHR ''-'' # b @ CHR '']'' # suf
        \<and> CHR ''['' \<notin> set pre \<and> CHR '']'' \<notin> set pre
        \<and> CHR '']'' \<notin> set a \<and> CHR ''-'' \<notin> set a
        \<and> CHR '']'' \<notin> set b \<and> CHR ''-'' \<notin> set b
        \<and> Atoi a = Some x \<and> Atoi b = Some y \<and> x \<le> y)"

section \<open>Facts about the statements\<close>

subsection \<open>Holders\<close>

lemma holders_Nil [simp]: "holders [] = []"
  by (simp add: holders_def)

lemma holders_Cons [simp]:
  "holders (r # s) = (case locked_by r of None \<Rightarrow> holders s | Some h \<Rightarrow> h # holders s)"
  by (simp add: holders_def split: option.split)

lemma holders_append [simp]: "holders (s @ t) = holders s @ holders t"
  by (simp add: holders_def)

lemma set_holders: "set (holders s) = {h. \<exists>r\<in>set s. locked_by r = Some h}"
  by (induction s) (auto split: option.splits)

lemma holders_cong:
  assumes "map locked_by s = map locked_by t"
  shows "holders s = holders t"
proof -
  have h: "holders u = concat (map (case_option [] (\<lambda>h. [h])) (map locked_by u))" for u
    by (simp only: holders_def map_map comp_def)
  show ?thesis
    by (simp only: h assms)
qed

lemma distinct_holders_clear:
  "distinct (holders s) \<Longrightarrow>
   distinct (holders (map (\<lambda>r. if P r then r\<lparr>locked_by := None, last_seen := None\<rparr> else r) s))"
proof (induction s)
  case Nil
  then show ?case by simp
next
  case (Cons r s)
  have sub: "set (holders (map (\<lambda>r. if P r then r\<lparr>locked_by := None, last_seen := None\<rparr> else r) s))
             \<subseteq> set (holders s)"
    by (auto simp: set_holders)
  from Cons sub show ?case
    by (auto split: option.splits)
qed

lemma count_holders:
  "count_list (holders s) h = length (filter (\<lambda>r. locked_by r = Some h) s)"
  by (induction s) (simp_all split: option.split)

lemma distinct_count_le_1: "distinct xs \<longleftrightarrow> (\<forall>a. count_list xs a \<le> 1)"
proof (induction xs)
  case Nil
  then show ?case by simp
next
  case (Cons x xs)
  show ?case
  proof
    assume d: "distinct (x # xs)"
    then have "count_list xs x = 0" by (simp add: count_list_0_iff)
    moreover from d Cons have "\<forall>a. count_list xs a \<le> 1" by simp
    ultimately show "\<forall>a. count_list (x # xs) a \<le> 1" by simp
  next
    assume a: "\<forall>a. count_list (x # xs) a \<le> 1"
    then have "count_list (x # xs) x \<le> 1" by (rule spec)
    then have "count_list xs x = 0" by simp
    then have nx: "x \<notin> set xs" by (simp add: count_list_0_iff)
    have "count_list xs b \<le> 1" for b
      using spec[OF a, of b] by (simp split: if_splits)
    then have "distinct xs" using Cons by simp
    with nx show "distinct (x # xs)" by simp
  qed
qed

lemma at_most_one_per_holder_iff: "at_most_one_per_holder s \<longleftrightarrow> distinct (holders s)"
  by (simp add: at_most_one_per_holder_def distinct_count_le_1 count_holders)

lemma holders_claimed:
  assumes "locked_by r = None"
  shows "holders (pre @ r\<lparr>locked_by := Some c, last_seen := Some (sqlite_timestamp now)\<rparr> # post)
         = holders pre @ c # holders post"
    and "holders (pre @ r # post) = holders pre @ holders post"
  using assms by simp_all

subsection \<open>The first free row\<close>

lemma free_limit_1_none:
  "\<forall>r\<in>set s. locked_by r \<noteq> None \<Longrightarrow> free_limit_1 s = []"
  by (simp add: free_limit_1_def filter_empty_conv)

lemma free_limit_1_split:
  "\<forall>x\<in>set pre. locked_by x \<noteq> None \<Longrightarrow> locked_by r = None \<Longrightarrow>
   free_limit_1 (pre @ r # post) = [identifier r]"
proof -
  assume a: "\<forall>x\<in>set pre. locked_by x \<noteq> None" and b: "locked_by r = None"
  from a have "filter (\<lambda>r. locked_by r = None) pre = []"
    by (simp add: filter_empty_conv)
  with b show ?thesis
    by (simp add: free_limit_1_def)
qed

lemma claim_update_none:
  "\<forall>r\<in>set s. locked_by r \<noteq> None \<Longrightarrow> claim_update now c s = s"
  by (simp add: claim_update_def free_limit_1_none map_idI)

lemma claim_returning_none:
  "\<forall>r\<in>set s. locked_by r \<noteq> None \<Longrightarrow> claim_returning s = ErrNoRows"
  by (simp add: claim_returning_def free_limit_1_none)

lemma distinct_split_neq:
  assumes "distinct (map identifier (pre @ r # post))"
  shows "(\<forall>x\<in>set pre. identifier x \<noteq> identifier r)
       \<and> (\<forall>x\<in>set post. identifier x \<noteq> identifier r)"
proof -
  from assms have "identifier r \<notin> identifier ` set pre" "identifier r \<notin> identifier ` set post"
    by simp_all
  then show ?thesis
    by (metis imageI)
qed

lemma claim_update_split:
  assumes "\<forall>x\<in>set pre. locked_by x \<noteq> None" and "locked_by r = None"
    and "distinct (map identifier (pre @ r # post))"
  shows "claim_update now c (pre @ r # post)
         = pre @ r\<lparr>locked_by := Some c, last_seen := Some (sqlite_timestamp now)\<rparr> # post"
proof -
  have f: "free_limit_1 (pre @ r # post) = [identifier r]"
    using assms(1,2) by (rule free_limit_1_split)
  have p: "map (\<lambda>x. if identifier x \<in> set [identifier r]
              then x\<lparr>locked_by := Some c, last_seen := Some (sqlite_timestamp now)\<rparr> else x) pre = pre"
    using distinct_split_neq[OF assms(3)] by (intro map_idI) simp
  have q: "map (\<lambda>x. if identifier x \<in> set [identifier r]
              then x\<lparr>locked_by := Some c, last_seen := Some (sqlite_timestamp now)\<rparr> else x) post = post"
    using distinct_split_neq[OF assms(3)] by (intro map_idI) simp
  show ?thesis
    unfolding claim_update_def f using p q by simp
qed

lemma claim_returning_split:
  assumes "\<forall>x\<in>set pre. locked_by x \<noteq> None" and "locked_by r = None"
    and "distinct (map identifier (pre @ r # post))"
  shows "claim_returning (pre @ r # post) = Scanned (identifier r)"
proof -
  have f: "free_limit_1 (pre @ r # post) = [identifier r]"
    using assms(1,2) by (rule free_limit_1_split)
  have p: "filter (\<lambda>x. identifier x \<in> set [identifier r]) pre = []"
    using distinct_split_neq[OF assms(3)] by (simp add: filter_empty_conv)
  show ?thesis
    unfolding claim_returning_def f using p by simp
qed

lemma first_free_split:
  assumes "\<exists>r\<in>set s. locked_by r = None"
  obtains pre r post where "s = pre @ r # post" and "\<forall>x\<in>set pre. locked_by x \<noteq> None"
    and "locked_by r = None"
proof -
  from assms obtain pre r post where "s = pre @ r # post" "locked_by r = None"
    "\<forall>x\<in>set pre. \<not> locked_by x = None"
    using split_list_first_prop[of s "\<lambda>r. locked_by r = None"] by blast
  then show thesis using that by blast
qed

subsection \<open>The three outcomes of allocation\<close>

lemma existing_identifier_none:
  "\<forall>r\<in>set s. locked_by r \<noteq> Some c \<Longrightarrow> existing_identifier c s = ErrNoRows"
  by (simp add: existing_identifier_def filter_empty_conv)

lemma existing_identifier_some:
  assumes "r \<in> set s" and "locked_by r = Some c"
  obtains r' where "r' \<in> set s" and "locked_by r' = Some c"
    and "existing_identifier c s = Scanned (identifier r')"
proof -
  from assms have "filter (\<lambda>r. locked_by r = Some c) s \<noteq> []"
    by (auto simp: filter_empty_conv)
  then obtain r' rest where e: "filter (\<lambda>r. locked_by r = Some c) s = r' # rest"
    by (cases "filter (\<lambda>r. locked_by r = Some c) s") auto
  then have "r' \<in> set (filter (\<lambda>r. locked_by r = Some c) s)" by simp
  then have "r' \<in> set s" "locked_by r' = Some c" by auto
  moreover have "existing_identifier c s = Scanned (identifier r')"
    by (simp add: existing_identifier_def e)
  ultimately show thesis using that by blast
qed

lemma allocate_existing:
  assumes "r \<in> set s" and "locked_by r = Some client_id"
  shows "\<exists>r'\<in>set s. locked_by r' = Some client_id
           \<and> allocate now client_id s = (AllocateResponse (identifier r'), s)"
proof -
  obtain r' where r': "r' \<in> set s" "locked_by r' = Some client_id"
    "existing_identifier client_id s = Scanned (identifier r')"
    using assms by (rule existing_identifier_some)
  then have "allocate now client_id s = (AllocateResponse (identifier r'), s)"
    by (simp add: allocate_def)
  with r'(1,2) show ?thesis by (intro bexI[of _ r']) simp_all
qed

lemma allocate_exhausted:
  assumes "\<forall>r\<in>set s. locked_by r \<noteq> Some client_id" and "\<forall>r\<in>set s. locked_by r \<noteq> None"
  shows "allocate now client_id s = (ServiceUnavailable, s)"
  using assms
  by (simp add: allocate_def existing_identifier_none claim_returning_none claim_update_none)

lemma allocate_claims:
  assumes "\<forall>x\<in>set (pre @ r # post). locked_by x \<noteq> Some client_id"
    and "\<forall>x\<in>set pre. locked_by x \<noteq> None" and "locked_by r = None"
    and "distinct (map identifier (pre @ r # post))"
  shows "allocate now client_id (pre @ r # post)
         = (AllocateResponse (identifier r),
            pre @ r\<lparr>locked_by := Some client_id, last_seen := Some (sqlite_timestamp now)\<rparr> # post)"
  using existing_identifier_none[OF assms(1)] claim_returning_split[OF assms(2,3,4)]
    claim_update_split[OF assms(2,3,4)]
  by (simp add: allocate_def)

lemma allocate_cases:
  "snd (allocate now c s) = s \<or> snd (allocate now c s) = claim_update now c s"
  by (simp add: allocate_def split: scan.split)

subsection \<open>The lookup of a renewal\<close>

lemma db_client_id_unknown:
  "v \<notin> identifier ` set s \<Longrightarrow> db_client_id v s = ErrNoRows"
proof -
  assume "v \<notin> identifier ` set s"
  then have "\<forall>r\<in>set s. identifier r \<noteq> v" by (metis imageI)
  then show ?thesis
    by (simp add: db_client_id_def filter_empty_conv)
qed

lemma db_client_id_known:
  assumes "r \<in> set s" and "identifier r = v" and "distinct (map identifier s)"
  shows "db_client_id v s = scan_string [locked_by r]"
proof -
  from assms(1) obtain pre post where sp: "s = pre @ r # post"
    by (meson split_list)
  have "(\<forall>x\<in>set pre. identifier x \<noteq> identifier r) \<and> (\<forall>x\<in>set post. identifier x \<noteq> identifier r)"
    using assms(3) unfolding sp by (rule distinct_split_neq)
  then have "filter (\<lambda>x. identifier x = v) pre = []" "filter (\<lambda>x. identifier x = v) post = []"
    using assms(2) by (simp_all add: filter_empty_conv)
  then show ?thesis
    using assms(2) by (simp add: db_client_id_def sp)
qed

lemma liveness_free:
  assumes "r \<in> set s" and "identifier r = v" and "locked_by r = None" and "unique_identifier s"
  shows "liveness now client_id v s = (InternalServerError, s)"
  using db_client_id_known[OF assms(1,2)] assms(3,4)
  by (simp add: liveness_def unique_identifier_def)

lemma livenessHandler_cases:
  "snd (livenessHandler now c v s) = s
   \<or> snd (livenessHandler now c v s) = liveness_update now c v s"
  by (simp add: livenessHandler_def liveness_def split: scan.split)

subsection \<open>The column \<open>identifier\<close> is never written\<close>

lemma identifier_claim_update [simp]:
  "map identifier (claim_update now c s) = map identifier s"
  by (simp add: claim_update_def comp_def if_distrib)

lemma identifier_liveness_update [simp]:
  "map identifier (liveness_update now c v s) = map identifier s"
  by (simp add: liveness_update_def comp_def if_distrib)

lemma identifier_releaseHandler [simp]:
  "map identifier (snd (releaseHandler c v s)) = map identifier s"
  by (simp add: releaseHandler_def comp_def if_distrib)

lemma identifier_releaseStaleIdentifiers [simp]:
  "map identifier (snd (releaseStaleIdentifiers now d s)) = map identifier s"
  by (simp add: releaseStaleIdentifiers_def Let_def comp_def if_distrib)

lemma identifier_handle: "map identifier (handle req s) = map identifier s"
proof (cases req)
  case (Allocate now c)
  then show ?thesis
    using allocate_cases[of now c s] by (auto simp: allocateHandler_def)
next
  case (Renew now c v)
  then show ?thesis
    using livenessHandler_cases[of now c v s] by auto
qed simp_all

lemma unique_identifier_handle: "unique_identifier s \<Longrightarrow> unique_identifier (handle req s)"
  by (simp add: unique_identifier_def identifier_handle)

lemma unique_identifier_insert: "unique_identifier s \<Longrightarrow> unique_identifier (insert_or_ignore v s)"
  by (simp add: unique_identifier_def insert_or_ignore_def)

lemma unique_identifier_preload:
  "unique_identifier s \<Longrightarrow> unique_identifier (preloadIdentifiers ids s)"
  unfolding preloadIdentifiers_def
  by (induction ids arbitrary: s) (simp_all add: unique_identifier_insert)

lemma fold_handle_invariant:
  assumes "\<And>req s. P s \<Longrightarrow> P (handle req s)" and "P s"
  shows "P (fold handle reqs s)"
  using assms(2) by (induction reqs arbitrary: s) (simp_all add: assms(1))

lemma unique_identifier_run: "unique_identifier (run ids reqs)"
  unfolding run_def
proof (rule fold_handle_invariant)
  show "unique_identifier (preloadIdentifiers ids [])"
    by (rule unique_identifier_preload) (simp add: unique_identifier_def)
qed (rule unique_identifier_handle)

lemma ball_map:
  assumes "\<forall>r\<in>set s. P r" and "\<And>r. P r \<Longrightarrow> P (f r)"
  shows "\<forall>r\<in>set (map f s). P r"
  using assms(1) by (induction s) (simp_all add: assms(2))

subsection \<open>Holder and timestamp go together\<close>

lemma hit_claim_update:
  "holder_iff_timestamp s \<Longrightarrow> holder_iff_timestamp (claim_update now c s)"
  unfolding holder_iff_timestamp_def claim_update_def
  by (erule ball_map) simp

lemma hit_liveness_update:
  "holder_iff_timestamp s \<Longrightarrow> holder_iff_timestamp (liveness_update now c v s)"
  unfolding holder_iff_timestamp_def liveness_update_def
  by (erule ball_map) simp

lemma hit_allocate:
  "holder_iff_timestamp s \<Longrightarrow> holder_iff_timestamp (snd (allocate now c s))"
  using allocate_cases[of now c s] by (metis hit_claim_update)

lemma hit_liveness:
  "holder_iff_timestamp s \<Longrightarrow> holder_iff_timestamp (snd (liveness now c v s))"
  by (simp add: liveness_def hit_liveness_update split: scan.split)

lemma hit_release:
  "holder_iff_timestamp s \<Longrightarrow> holder_iff_timestamp (snd (releaseHandler c v s))"
  unfolding holder_iff_timestamp_def releaseHandler_def snd_conv
  by (erule ball_map) simp

lemma hit_reclaim:
  "holder_iff_timestamp s \<Longrightarrow> holder_iff_timestamp (snd (releaseStaleIdentifiers now d s))"
  unfolding holder_iff_timestamp_def releaseStaleIdentifiers_def Let_def snd_conv
  by (erule ball_map) simp

lemma hit_handle: "holder_iff_timestamp s \<Longrightarrow> holder_iff_timestamp (handle req s)"
proof (cases req)
  case (Allocate now c)
  assume "holder_iff_timestamp s"
  then show ?thesis
    using Allocate hit_allocate[of s now c] by (simp add: allocateHandler_def)
next
  case (Renew now c v)
  assume "holder_iff_timestamp s"
  then show ?thesis
    using Renew hit_liveness[of s now c v] by (simp add: livenessHandler_def)
qed (simp_all add: hit_release hit_reclaim)

lemma hit_insert: "holder_iff_timestamp s \<Longrightarrow> holder_iff_timestamp (insert_or_ignore v s)"
  by (simp add: holder_iff_timestamp_def insert_or_ignore_def)

lemma hit_preload: "holder_iff_timestamp s \<Longrightarrow> holder_iff_timestamp (preloadIdentifiers ids s)"
  unfolding preloadIdentifiers_def
  by (induction ids arbitrary: s) (simp_all add: hit_insert)

subsection \<open>No lease of the empty client\<close>

lemma neh_claim_update:
  "c \<noteq> [] \<Longrightarrow> no_empty_holder s \<Longrightarrow> no_empty_holder (claim_update now c s)"
  unfolding no_empty_holder_def claim_update_def
  by (erule ball_map) simp

lemma neh_allocateHandler:
  assumes "no_empty_holder s"
  shows "no_empty_holder (snd (allocateHandler now c s))"
proof (cases "c = []")
  case True
  then show ?thesis using assms by (simp add: allocateHandler_def)
next
  case False
  then show ?thesis
    using allocate_cases[of now c s] assms neh_claim_update[of c s now]
    by (auto simp: allocateHandler_def)
qed

lemma neh_iff: "no_empty_holder s \<longleftrightarrow> Some [] \<notin> set (map locked_by s)"
  unfolding no_empty_holder_def set_map by (metis imageE imageI)

lemma neh_liveness_update:
  "no_empty_holder s \<Longrightarrow> no_empty_holder (liveness_update now c v s)"
proof -
  have "map locked_by (liveness_update now c v s) = map locked_by s"
    by (simp add: liveness_update_def comp_def if_distrib)
  then show "no_empty_holder s \<Longrightarrow> no_empty_holder (liveness_update now c v s)"
    by (metis neh_iff)
qed

lemma neh_livenessHandler:
  "no_empty_holder s \<Longrightarrow> no_empty_holder (snd (livenessHandler now c v s))"
  using livenessHandler_cases[of now c v s] by (metis neh_liveness_update)

lemma neh_release:
  "no_empty_holder s \<Longrightarrow> no_empty_holder (snd (releaseHandler c v s))"
  unfolding no_empty_holder_def releaseHandler_def snd_conv
  by (erule ball_map) simp

lemma neh_reclaim:
  "no_empty_holder s \<Longrightarrow> no_empty_holder (snd (releaseStaleIdentifiers now d s))"
  unfolding no_empty_holder_def releaseStaleIdentifiers_def Let_def snd_conv
  by (erule ball_map) simp

lemma neh_handle: "no_empty_holder s \<Longrightarrow> no_empty_holder (handle req s)"
  by (cases req) (simp_all add: neh_allocateHandler neh_livenessHandler neh_release neh_reclaim)

lemma neh_insert: "no_empty_holder s \<Longrightarrow> no_empty_holder (insert_or_ignore v s)"
  by (simp add: no_empty_holder_def insert_or_ignore_def)

lemma neh_preload: "no_empty_holder s \<Longrightarrow> no_empty_holder (preloadIdentifiers ids s)"
  unfolding preloadIdentifiers_def
  by (induction ids arbitrary: s) (simp_all add: neh_insert)

lemma neh_run: "no_empty_holder (run ids reqs)"
  unfolding run_def
proof (rule fold_handle_invariant)
  show "no_empty_holder (preloadIdentifiers ids [])"
    by (rule neh_preload) (simp add: no_empty_holder_def)
qed (rule neh_handle)

lemma release_empty_noop:
  assumes "no_empty_holder s"
  shows "releaseHandler [] v s = (ReleaseSuccess, s)"
proof -
  have "map (\<lambda>r. if identifier r = v \<and> locked_by r = Some []
               then r\<lparr>locked_by := None, last_seen := None\<rparr> else r) s = s"
    using assms by (intro map_idI) (simp add: no_empty_holder_def)
  then show ?thesis
    by (simp add: releaseHandler_def)
qed

subsection \<open>One identifier for each holder\<close>

lemma holders_insert: "holders (insert_or_ignore v s) = holders s"
  by (simp add: insert_or_ignore_def)

lemma holders_preload: "holders (preloadIdentifiers ids s) = holders s"
  unfolding preloadIdentifiers_def
  by (induction ids arbitrary: s) (simp_all add: holders_insert)

lemma amo_liveness_update:
  "at_most_one_per_holder s \<Longrightarrow> at_most_one_per_holder (liveness_update now c v s)"
proof -
  have "map locked_by (liveness_update now c v s) = map locked_by s"
    by (simp add: liveness_update_def comp_def if_distrib)
  then have "holders (liveness_update now c v s) = holders s"
    by (rule holders_cong)
  then show "at_most_one_per_holder s \<Longrightarrow> at_most_one_per_holder (liveness_update now c v s)"
    by (simp add: at_most_one_per_holder_iff)
qed

lemma amo_livenessHandler:
  "at_most_one_per_holder s \<Longrightarrow> at_most_one_per_holder (snd (livenessHandler now c v s))"
  using livenessHandler_cases[of now c v s] by (metis amo_liveness_update)

lemma amo_liveness:
  "at_most_one_per_holder s \<Longrightarrow> at_most_one_per_holder (snd (liveness now c v s))"
  by (simp add: liveness_def amo_liveness_update split: scan.split)

lemma amo_release:
  "at_most_one_per_holder s \<Longrightarrow> at_most_one_per_holder (snd (releaseHandler c v s))"
  unfolding at_most_one_per_holder_iff releaseHandler_def snd_conv
  by (rule distinct_holders_clear)

lemma amo_reclaim:
  "at_most_one_per_holder s \<Longrightarrow> at_most_one_per_holder (snd (releaseStaleIdentifiers now d s))"
  unfolding at_most_one_per_holder_iff releaseStaleIdentifiers_def Let_def snd_conv
  by (rule distinct_holders_clear)

lemma amo_allocate:
  assumes "unique_identifier s" and "at_most_one_per_holder s"
  shows "at_most_one_per_holder (snd (allocate now c s))"
proof (cases "\<exists>r\<in>set s. locked_by r = Some c")
  case True
  then obtain r where r: "r \<in> set s" "locked_by r = Some c" ..
  have "snd (allocate now c s) = s"
    using allocate_existing[OF r, of now] by (metis snd_conv)
  then show ?thesis using assms(2) by simp
next
  case none: False
  then have nc: "\<forall>r\<in>set s. locked_by r \<noteq> Some c" by simp
  show ?thesis
  proof (cases "\<forall>r\<in>set s. locked_by r \<noteq> None")
    case True
    have "allocate now c s = (ServiceUnavailable, s)"
      using nc True by (rule allocate_exhausted)
    then show ?thesis
      using assms(2) by simp
  next
    case False
    then have "\<exists>r\<in>set s. locked_by r = None" by simp
    then obtain pre r post where sp: "s = pre @ r # post" "\<forall>x\<in>set pre. locked_by x \<noteq> None"
      "locked_by r = None"
      by (rule first_free_split)
    have d: "distinct (map identifier (pre @ r # post))"
      using assms(1) unfolding sp(1) unique_identifier_def .
    have nc': "\<forall>x\<in>set (pre @ r # post). locked_by x \<noteq> Some c"
      using nc unfolding sp(1) .
    have a: "allocate now c (pre @ r # post)
         = (AllocateResponse (identifier r),
            pre @ r\<lparr>locked_by := Some c, last_seen := Some (sqlite_timestamp now)\<rparr> # post)"
      using nc' sp(2,3) d by (rule allocate_claims)
    have "c \<notin> set (holders (pre @ r # post))"
      unfolding set_holders using nc' by simp
    moreover have "distinct (holders (pre @ r # post))"
      using assms(2) unfolding sp(1) at_most_one_per_holder_iff .
    ultimately have "distinct (holders (pre @ r\<lparr>locked_by := Some c, last_seen := Some (sqlite_timestamp now)\<rparr> # post))"
      unfolding holders_claimed[OF sp(3)] by simp
    then show ?thesis
      unfolding sp(1) a snd_conv at_most_one_per_holder_iff .
  qed
qed

lemma amo_handle:
  assumes "unique_identifier s" and "at_most_one_per_holder s"
  shows "at_most_one_per_holder (handle req s)"
proof (cases req)
  case (Allocate now c)
  then show ?thesis
    using amo_allocate[OF assms] assms(2) by (simp add: allocateHandler_def)
qed (simp_all add: assms(2) amo_livenessHandler amo_release amo_reclaim)

lemma amo_run: "at_most_one_per_holder (run ids reqs)"
proof -
  have "unique_identifier (fold handle reqs s) \<and> at_most_one_per_holder (fold handle reqs s)"
    if "unique_identifier s \<and> at_most_one_per_holder s" for s
    using that
    by (rule fold_handle_invariant[rotated]) (simp add: unique_identifier_handle amo_handle)
  moreover have "unique_identifier (preloadIdentifiers ids [])"
    by (rule unique_identifier_preload) (simp add: unique_identifier_def)
  moreover have "at_most_one_per_holder (preloadIdentifiers ids [])"
    by (simp add: at_most_one_per_holder_iff holders_preload)
  ultimately show ?thesis
    by (simp add: run_def)
qed

subsection \<open>The rows a sweep clears\<close>

text \<open>
  A sweep keeps every row in its place and clears exactly the leased rows whose stored text
  is below the text of the threshold; the number it reports is the number of those rows.
\<close>

lemma sweep_rows:
  "length (snd (releaseStaleIdentifiers now stale_timeout s)) = length s
   \<and> (\<forall>i<length s.
         snd (releaseStaleIdentifiers now stale_timeout s) ! i =
           (if locked_by (s ! i) \<noteq> None
               \<and> (\<exists>t. last_seen (s ! i) = Some t
                      \<and> text_less t (sqlite_timestamp (Add now (- stale_timeout))))
            then (s ! i)\<lparr>locked_by := None, last_seen := None\<rparr> else s ! i))
   \<and> fst (releaseStaleIdentifiers now stale_timeout s) =
         card {i. i < length s \<and> locked_by (s ! i) \<noteq> None
                 \<and> (\<exists>t. last_seen (s ! i) = Some t
                        \<and> text_less t (sqlite_timestamp (Add now (- stale_timeout))))}"
proof -
  have st: "is_stale (sqlite_timestamp (Add now (- stale_timeout))) r \<longleftrightarrow>
        locked_by r \<noteq> None
        \<and> (\<exists>t. last_seen r = Some t
               \<and> text_less t (sqlite_timestamp (Add now (- stale_timeout))))" for r
    by (auto simp: is_stale_def split: option.splits)
  have n: "fst (releaseStaleIdentifiers now stale_timeout s) =
         card {i. i < length s \<and> locked_by (s ! i) \<noteq> None
                 \<and> (\<exists>t. last_seen (s ! i) = Some t
                        \<and> text_less t (sqlite_timestamp (Add now (- stale_timeout))))}"
    by (simp add: releaseStaleIdentifiers_def Let_def length_filter_conv_card st)
  have u: "\<forall>i<length s.
         snd (releaseStaleIdentifiers now stale_timeout s) ! i =
           (if locked_by (s ! i) \<noteq> None
               \<and> (\<exists>t. last_seen (s ! i) = Some t
                      \<and> text_less t (sqlite_timestamp (Add now (- stale_timeout))))
            then (s ! i)\<lparr>locked_by := None, last_seen := None\<rparr> else s ! i)"
    by (simp add: releaseStaleIdentifiers_def Let_def st)
  have l: "length (snd (releaseStaleIdentifiers now stale_timeout s)) = length s"
    by (simp add: releaseStaleIdentifiers_def Let_def)
  show ?thesis
    using l u n by blast
qed

text \<open>Time values and the text bound for them.\<close>

lemma sqlite_timestamp_examples:
  "sqlite_timestamp (Unix 0 0 UTC) = ''1970-01-01 00:00:00+00:00''"
  "sqlite_timestamp (Unix 1709210096 123456000 UTC) = ''2024-02-29 12:34:56.123456+00:00''"
  "sqlite_timestamp (Unix 951782400 0 (\<lambda>sec. 19800)) = ''2000-02-29 05:30:00+05:30''"
  "sqlite_timestamp (Unix 1730613599 500000000 fall_back) = ''2024-11-03 01:59:59.5-04:00''"
  "sqlite_timestamp (Unix 1730613600 0 fall_back) = ''2024-11-03 01:00:00-05:00''"
  by code_simp+

section \<open>Facts about the patterns\<close>

declare expandPattern.simps [simp del]

lemma Index_range: "Index p c \<noteq> - 1 \<Longrightarrow> 0 \<le> Index p c \<and> Index p c < int (length p)"
  by (induction p) (auto simp: Let_def split: if_splits)

lemma Index_absent: "c \<notin> set p \<Longrightarrow> Index p c = - 1"
  by (induction p) auto

lemma Index_first: "c \<notin> set pre \<Longrightarrow> Index (pre @ c # r) c = int (length pre)"
  by (induction pre) (auto simp: Let_def)

lemma Index_later:
  "c \<notin> set pre \<Longrightarrow> c \<noteq> d \<Longrightarrow>
   Index (pre @ d # r) c = - 1 \<or> int (length pre) < Index (pre @ d # r) c"
proof (induction pre)
  case Nil
  then show ?case
    using Index_range[of r c] by (auto simp: Let_def)
next
  case (Cons x pre)
  then show ?case by (auto simp: Let_def)
qed

lemma first_split_unique:
  fixes c :: char
  assumes "c \<notin> set pre" and "c \<notin> set pre'" and "pre @ c # r = pre' @ c # r'"
  shows "pre = pre' \<and> r = r'"
proof -
  have "int (length pre) = Index (pre @ c # r) c"
    using assms(1) by (simp add: Index_first)
  also have "\<dots> = int (length pre')"
    unfolding assms(3) using assms(2) by (simp add: Index_first)
  finally have "length pre = length pre'" by simp
  then show ?thesis using assms(3) by simp
qed

lemma Split_nonempty: "Split s c \<noteq> []"
  by (induction s) (simp_all split: list.split)

lemma Split_no_sep: "c \<notin> set a \<Longrightarrow> Split a c = [a]"
  by (induction a) auto

lemma Split_first: "c \<notin> set a \<Longrightarrow> Split (a @ c # b) c = a # Split b c"
  by (induction a) auto

lemma Split_two:
  assumes "length (Split s c) = 2"
  obtains a b where "s = a @ c # b" and "c \<notin> set a" and "c \<notin> set b" and "Split s c = [a, b]"
proof -
  have "c \<in> set s"
    using assms Split_no_sep[of c s] by (cases "c \<in> set s") simp_all
  then obtain a b where s: "s = a @ c # b" "c \<notin> set a"
    by (meson split_list_first)
  then have sp: "Split s c = a # Split b c"
    by (simp add: Split_first)
  have "c \<notin> set b"
  proof
    assume "c \<in> set b"
    then obtain a' b' where "b = a' @ c # b'" "c \<notin> set a'"
      by (meson split_list_first)
    then have "Split b c = a' # Split b' c"
      by (simp add: Split_first)
    then have "2 \<le> length (Split b c)"
      using Split_nonempty[of b' c] by (cases "Split b' c") simp_all
    then show False using assms sp by simp
  qed
  then have "Split s c = [a, b]"
    using sp by (simp add: Split_no_sep)
  with s \<open>c \<notin> set b\<close> show thesis using that by blast
qed

lemma expandPattern_no_bracket:
  "CHR ''['' \<notin> set p \<or> CHR '']'' \<notin> set p \<Longrightarrow> expandPattern p = Some [p]"
  by (subst expandPattern.simps) (auto simp: Index_absent Let_def)

lemma expandPattern_closing_first:
  assumes "CHR ''['' \<notin> set pre" and "CHR '']'' \<notin> set pre"
  shows "expandPattern (pre @ CHR '']'' # r) = Some [pre @ CHR '']'' # r]"
proof -
  have e: "Index (pre @ CHR '']'' # r) CHR '']'' = int (length pre)"
    using assms(2) by (rule Index_first)
  have s: "Index (pre @ CHR '']'' # r) CHR ''['' = - 1
           \<or> int (length pre) < Index (pre @ CHR '']'' # r) CHR ''[''"
    using assms(1) by (rule Index_later) simp
  show ?thesis
    by (subst expandPattern.simps) (use e s in \<open>auto simp: Let_def\<close>)
qed

lemma expandPattern_segment:
  assumes "CHR ''['' \<notin> set pre" and "CHR '']'' \<notin> set pre" and "CHR '']'' \<notin> set seg"
  shows "expandPattern (pre @ CHR ''['' # seg @ CHR '']'' # suf) =
     (if length (Split seg CHR ''-'') \<noteq> 2 then Some [pre @ CHR ''['' # seg @ CHR '']'' # suf]
      else
        (case Atoi (Split seg CHR ''-'' ! 0) of
           None \<Rightarrow> Some [pre @ CHR ''['' # seg @ CHR '']'' # suf]
         | Some startNum \<Rightarrow>
             (case Atoi (Split seg CHR ''-'' ! 1) of
                None \<Rightarrow> Some [pre @ CHR ''['' # seg @ CHR '']'' # suf]
              | Some endNum \<Rightarrow>
                  if startNum > endNum then Some [pre @ CHR ''['' # seg @ CHR '']'' # suf]
                  else if endNum = max_int then None
                  else
                    (case expandPattern suf of
                       None \<Rightarrow> None
                     | Some expandedSuffixes \<Rightarrow>
                         Some (concat (map (\<lambda>i. map (\<lambda>expSuffix.
                                 pre @ Sprintf_d i @ expSuffix) expandedSuffixes)
                               [startNum..endNum]))))))"
proof -
  let ?p = "pre @ CHR ''['' # seg @ CHR '']'' # suf"
  have s: "Index ?p CHR ''['' = int (length pre)"
    using assms(1) by (rule Index_first)
  have "CHR '']'' \<notin> set (pre @ CHR ''['' # seg)"
    using assms(2,3) by simp
  then have "Index ((pre @ CHR ''['' # seg) @ CHR '']'' # suf) CHR '']''
             = int (length (pre @ CHR ''['' # seg))"
    by (rule Index_first)
  then have e: "Index ?p CHR '']'' = int (length pre) + 1 + int (length seg)"
    by simp
  have c: "\<not> (Index ?p CHR ''['' = - 1 \<or> Index ?p CHR '']'' = - 1
              \<or> Index ?p CHR ''['' > Index ?p CHR '']'')"
    by (simp add: s e)
  have px: "take (nat (Index ?p CHR ''['')) ?p = pre"
    by (simp add: s)
  have dx: "drop (nat (Index ?p CHR ''['' + 1)) ?p = seg @ CHR '']'' # suf"
    by (simp add: s nat_add_distrib)
  have rx: "take (nat (Index ?p CHR '']'' - (Index ?p CHR ''['' + 1)))
              (drop (nat (Index ?p CHR ''['' + 1)) ?p) = seg"
    unfolding dx by (simp add: s e)
  have "nat (Index ?p CHR '']'' + 1) = length (pre @ CHR ''['' # seg @ [CHR '']''])"
    by (simp add: e)
  then have sx: "drop (nat (Index ?p CHR '']'' + 1)) ?p = suf"
    by (metis append.assoc append_Cons append_Nil append_eq_conv_conj)
  show ?thesis
    unfolding expandPattern.simps[of ?p] Let_def px rx sx using c by simp
qed

lemma not_well_formed_example: "\<not> well_formed_first_range ''srv-[a-3]''"
proof
  assume "well_formed_first_range ''srv-[a-3]''"
  then obtain pre a b suf x y where
    eq: "''srv-[a-3]'' = pre @ CHR ''['' # a @ CHR ''-'' # b @ CHR '']'' # suf"
    and n: "CHR ''['' \<notin> set pre" "CHR ''-'' \<notin> set a" and at: "Atoi a = Some x"
    unfolding well_formed_first_range_def by blast
  have "''srv-'' @ CHR ''['' # ''a-3]'' = pre @ CHR ''['' # (a @ CHR ''-'' # b @ CHR '']'' # suf)"
    using eq by simp
  then have "''a-3]'' = a @ CHR ''-'' # b @ CHR '']'' # suf"
    using first_split_unique[of "CHR ''[''" "''srv-''" pre "''a-3]''"] n(1) by simp
  then have "''a'' @ CHR ''-'' # ''3]'' = a @ CHR ''-'' # (b @ CHR '']'' # suf)"
    by simp
  then have "a = ''a''"
    using first_split_unique[of "CHR ''-''" "''a''" a "''3]''"] n(2) by simp
  then show False
    using at by (simp add: Atoi_def digit_def)
qed

text \<open>Patterns as the code expands them, and one whose expansion does not return.\<close>

lemma expandPattern_examples:
  "expandPattern ''id-[1-3]'' = Some [''id-1'', ''id-2'', ''id-3'']"
  "expandPattern ''r[1-2]n[09-10]'' = Some [''r1n9'', ''r1n10'', ''r2n9'', ''r2n10'']"
  "expandPattern ''id-[3-1]'' = Some [''id-[3-1]'']"
  "expandPattern ''id]-[1-3]'' = Some [''id]-[1-3]'']"
  "expandPattern ''id-[9223372036854775807-9223372036854775807]'' = None"
  by code_simp+

section \<open>The scenarios of the specification\<close>

text \<open>
  A pool of two identifiers: two clients are served in table order, the third finds the pool
  exhausted, and after a release the freed identifier goes to the third.
\<close>

lemma scenario_pool_of_two:
  "fst (allocateHandler (Unix 0 0 UTC) ''vm-a'' (run [''id-1'', ''id-2''] [])) = AllocateResponse ''id-1''"
  "fst (allocateHandler (Unix 1 0 UTC) ''vm-b'' (run [''id-1'', ''id-2''] [Allocate (Unix 0 0 UTC) ''vm-a'']))
     = AllocateResponse ''id-2''"
  "fst (allocateHandler (Unix 2 0 UTC) ''vm-c''
          (run [''id-1'', ''id-2''] [Allocate (Unix 0 0 UTC) ''vm-a'',
                Allocate (Unix 1 0 UTC) ''vm-b'']))
     = ServiceUnavailable"
  "fst (allocateHandler (Unix 4 0 UTC) ''vm-c''
          (run [''id-1'', ''id-2'']
             [Allocate (Unix 0 0 UTC) ''vm-a'', Allocate (Unix 1 0 UTC) ''vm-b'',
              Allocate (Unix 2 0 UTC) ''vm-c'',
              Release ''vm-a'' ''id-1'']))
     = AllocateResponse ''id-1''"
  by (simp_all add: run_def preloadIdentifiers_def insert_or_ignore_def allocateHandler_def
      allocate_def existing_identifier_def claim_returning_def claim_update_def free_limit_1_def
      releaseHandler_def)

text \<open>
  With a stale timeout of 10 seconds and every time in UTC: a lease renewed at second 5
  survives the sweep at second 14 and is reclaimed by the sweep at second 16.
\<close>

lemma scenario_sweep:
  "run [''id-1''] [Allocate (Unix 0 0 UTC) ''vm-a'', Renew (Unix 5 0 UTC) ''vm-a'' ''id-1'',
        ReclaimStale (Unix 14 0 UTC) 10000000000]
     = [\<lparr>identifier = ''id-1'', locked_by = Some ''vm-a'',
         last_seen = Some (sqlite_timestamp (Unix 5 0 UTC))\<rparr>]"
  "run [''id-1''] [Allocate (Unix 0 0 UTC) ''vm-a'', Renew (Unix 5 0 UTC) ''vm-a'' ''id-1'',
        ReclaimStale (Unix 14 0 UTC) 10000000000,
                   ReclaimStale (Unix 16 0 UTC) 10000000000]
     = [\<lparr>identifier = ''id-1'', locked_by = None, last_seen = None\<rparr>]"
  by code_simp+

section \<open>The claims\<close>

text \<open>
  C1. Whatever the table, when \<open>client_id\<close> holds a row already, the two steps of
  \<^verbatim>\<open>allocateHandler\<close> answer with the identifier of a row that \<open>client_id\<close> holds and
  write nothing: the table, and with it the number of free rows, is as before. When the row
  \<open>r\<close> is the only one that the client holds, the answer is the identifier of \<open>r\<close>. For a
  non-empty \<open>client_id\<close> the handler is these two steps.
\<close>

theorem allocate_idempotent:
  assumes "r \<in> set s" and "locked_by r = Some client_id"
  shows "snd (allocate now client_id s) = s
       \<and> (\<exists>r'\<in>set s. locked_by r' = Some client_id
              \<and> fst (allocate now client_id s) = AllocateResponse (identifier r'))
       \<and> ((\<forall>r'\<in>set s. locked_by r' = Some client_id \<longrightarrow> r' = r)
             \<longrightarrow> allocate now client_id s = (AllocateResponse (identifier r), s))
       \<and> (client_id \<noteq> [] \<longrightarrow> allocateHandler now client_id s = allocate now client_id s)"
proof -
  obtain r' where r': "r' \<in> set s" "locked_by r' = Some client_id"
    "allocate now client_id s = (AllocateResponse (identifier r'), s)"
    using allocate_existing[OF assms, of now] by metis
  have a: "snd (allocate now client_id s) = s"
    by (simp add: r'(3))
  have b: "\<exists>r'\<in>set s. locked_by r' = Some client_id
              \<and> fst (allocate now client_id s) = AllocateResponse (identifier r')"
    using r' by (intro bexI[of _ r']) simp_all
  have c: "(\<forall>r'\<in>set s. locked_by r' = Some client_id \<longrightarrow> r' = r)
             \<longrightarrow> allocate now client_id s = (AllocateResponse (identifier r), s)"
    using r' by metis
  have d: "client_id \<noteq> [] \<longrightarrow> allocateHandler now client_id s = allocate now client_id s"
    by (simp add: allocateHandler_def)
  show ?thesis
    using a b c d by (intro conjI)
qed

theorem allocate_idempotent_witness:
  "\<lparr>identifier = ''id-1'', locked_by = Some ''vm-a'',
      last_seen = Some (sqlite_timestamp (Unix 0 0 UTC))\<rparr>
     \<in> set [\<lparr>identifier = ''id-1'', locked_by = Some ''vm-a'',
         last_seen = Some (sqlite_timestamp (Unix 0 0 UTC))\<rparr>,
             \<lparr>identifier = ''id-2'', locked_by = None, last_seen = None\<rparr>]
   \<and> allocateHandler (Unix 7 0 UTC) ''vm-a''
        [\<lparr>identifier = ''id-1'', locked_by = Some ''vm-a'',
            last_seen = Some (sqlite_timestamp (Unix 0 0 UTC))\<rparr>,
         \<lparr>identifier = ''id-2'', locked_by = None, last_seen = None\<rparr>]
     = (AllocateResponse ''id-1'',
        [\<lparr>identifier = ''id-1'', locked_by = Some ''vm-a'',
            last_seen = Some (sqlite_timestamp (Unix 0 0 UTC))\<rparr>,
         \<lparr>identifier = ''id-2'', locked_by = None, last_seen = None\<rparr>])"
  using allocate_idempotent
    [of "\<lparr>identifier = ''id-1'', locked_by = Some ''vm-a'',
        last_seen = Some (sqlite_timestamp (Unix 0 0 UTC))\<rparr>"
        "[\<lparr>identifier = ''id-1'', locked_by = Some ''vm-a'',
            last_seen = Some (sqlite_timestamp (Unix 0 0 UTC))\<rparr>,
          \<lparr>identifier = ''id-2'', locked_by = None, last_seen = None\<rparr>]"
        "''vm-a''" "Unix 7 0 UTC"]
  by simp

text \<open>
  C2. In every state that a sequence of Allocate, Renew, Release and ReclaimStale requests
  reaches from the seeded table, at most one row has a given holder; and on a table that
  satisfies its \<^verbatim>\<open>UNIQUE\<close> constraint each of the four operations, as a handler and as its
  part on the store, keeps it so.
\<close>

theorem at_most_one_per_holder_invariant:
  "at_most_one_per_holder (run expandedIdentifiers requests)
   \<and> (unique_identifier s \<and> at_most_one_per_holder s \<longrightarrow>
        at_most_one_per_holder (snd (allocateHandler now client_id s))
        \<and> at_most_one_per_holder (snd (allocate now client_id s))
        \<and> at_most_one_per_holder (snd (livenessHandler now client_id v s))
        \<and> at_most_one_per_holder (snd (liveness now client_id v s))
        \<and> at_most_one_per_holder (snd (releaseHandler client_id v s))
        \<and> at_most_one_per_holder (snd (releaseStaleIdentifiers now stale_timeout s)))"
  using amo_run[of expandedIdentifiers requests] amo_allocate[of s now client_id]
    amo_livenessHandler[of s now client_id v] amo_liveness[of s now client_id v]
    amo_release[of s client_id v] amo_reclaim[of s now stale_timeout]
  by (simp add: allocateHandler_def)

theorem at_most_one_per_holder_invariant_witness:
  "unique_identifier
     [\<lparr>identifier = ''id-1'', locked_by = Some ''vm-a'',
         last_seen = Some (sqlite_timestamp (Unix 0 0 UTC))\<rparr>,
      \<lparr>identifier = ''id-2'', locked_by = None, last_seen = None\<rparr>]
   \<and> at_most_one_per_holder
     [\<lparr>identifier = ''id-1'', locked_by = Some ''vm-a'',
         last_seen = Some (sqlite_timestamp (Unix 0 0 UTC))\<rparr>,
      \<lparr>identifier = ''id-2'', locked_by = None, last_seen = None\<rparr>]
   \<and> at_most_one_per_holder (snd (allocateHandler (Unix 1 0 UTC) ''vm-b''
     [\<lparr>identifier = ''id-1'', locked_by = Some ''vm-a'',
         last_seen = Some (sqlite_timestamp (Unix 0 0 UTC))\<rparr>,
      \<lparr>identifier = ''id-2'', locked_by = None, last_seen = None\<rparr>]))
   \<and> at_most_one_per_holder
        (run [''id-1'', ''id-2''] [Allocate (Unix 0 0 UTC) ''vm-a'',
              Allocate (Unix 1 0 UTC) ''vm-a''])"
proof -
  have u: "unique_identifier
     [\<lparr>identifier = ''id-1'', locked_by = Some ''vm-a'',
         last_seen = Some (sqlite_timestamp (Unix 0 0 UTC))\<rparr>,
      \<lparr>identifier = ''id-2'', locked_by = None, last_seen = None\<rparr>]"
    by (simp add: unique_identifier_def)
  have a: "at_most_one_per_holder
     [\<lparr>identifier = ''id-1'', locked_by = Some ''vm-a'',
         last_seen = Some (sqlite_timestamp (Unix 0 0 UTC))\<rparr>,
      \<lparr>identifier = ''id-2'', locked_by = None, last_seen = None\<rparr>]"
    by (simp add: at_most_one_per_holder_def)
  show ?thesis
    using u a at_most_one_per_holder_invariant
      [of "[''id-1'', ''id-2'']" "[Allocate (Unix 0 0 UTC) ''vm-a'',
       Allocate (Unix 1 0 UTC) ''vm-a'']"
          "[\<lparr>identifier = ''id-1'', locked_by = Some ''vm-a'',
              last_seen = Some (sqlite_timestamp (Unix 0 0 UTC))\<rparr>,
            \<lparr>identifier = ''id-2'', locked_by = None, last_seen = None\<rparr>]"
          "Unix 1 0 UTC" "''vm-b''"]
    by simp
qed

text \<open>
  C3. Renewing an identifier that is in the pool and free: the lookup reads the \<^verbatim>\<open>NULL\<close>
  holder into a Go string, which fails, and the handler answers 500 where the claim asks for
  the 409 conflict with an empty holder. The table is not written. Here the state is the one
  the second scenario of the specification ends in.
\<close>

theorem renew_free_identifier:
  "livenessHandler (Unix 17 0 UTC) ''vm-a'' ''id-1''
     (run [''id-1''] [Allocate (Unix 0 0 UTC) ''vm-a'', Renew (Unix 5 0 UTC) ''vm-a'' ''id-1'',
           ReclaimStale (Unix 14 0 UTC) 10000000000,
                      ReclaimStale (Unix 16 0 UTC) 10000000000])
   = (InternalServerError, [\<lparr>identifier = ''id-1'', locked_by = None, last_seen = None\<rparr>])"
  by (simp add: scenario_sweep livenessHandler_def liveness_def db_client_id_def)

text \<open>
  C4. The sweep compares the stored text of \<open>last_seen\<close> with the text of the threshold, and
  both texts carry a zone offset. In a location that goes from -04:00 to -05:00 at
  2024-11-03 06:00:00 UTC, a lease taken at 06:05:00 UTC is stored as 01:05:00-05:00. The
  sweep at 06:08:00 UTC with a stale timeout of ten minutes has the threshold 05:58:00 UTC,
  bound as 01:58:00-04:00. The lease was renewed seven minutes after the threshold, its text
  is the smaller one, and the sweep reclaims it: the claim asks that it stays.
\<close>

theorem sweep_reclaims_live_lease:
  "unix_nano (Add (Unix 1730614080 0 fall_back) (- 600000000000))
     \<le> unix_nano (Unix 1730613900 0 fall_back)
   \<and> sqlite_timestamp (Unix 1730613900 0 fall_back) = ''2024-11-03 01:05:00-05:00''
   \<and> sqlite_timestamp (Add (Unix 1730614080 0 fall_back) (- 600000000000))
       = ''2024-11-03 01:58:00-04:00''
   \<and> run [''id-1''] [Allocate (Unix 1730613900 0 fall_back) ''vm-a'']
       = [\<lparr>identifier = ''id-1'', locked_by = Some ''vm-a'',
           last_seen = Some ''2024-11-03 01:05:00-05:00''\<rparr>]
   \<and> releaseStaleIdentifiers (Unix 1730614080 0 fall_back) 600000000000
         (run [''id-1''] [Allocate (Unix 1730613900 0 fall_back) ''vm-a''])
       = (1, [\<lparr>identifier = ''id-1'', locked_by = None, last_seen = None\<rparr>])"
  by code_simp

text \<open>
  C5. Release always answers success and keeps every row in its place. A row with the given
  identifier that \<open>client_id\<close> holds loses holder and timestamp; every other row is as it was.
  So when no row with that identifier is held by \<open>client_id\<close> (it is free, unknown or held by
  another client) the table is unchanged, and a row held by another client is still in the
  table as it was.
\<close>

theorem release_effect:
  "fst (releaseHandler client_id v s) = ReleaseSuccess
   \<and> length (snd (releaseHandler client_id v s)) = length s
   \<and> (\<forall>i<length s. snd (releaseHandler client_id v s) ! i =
         (if identifier (s ! i) = v \<and> locked_by (s ! i) = Some client_id
          then (s ! i)\<lparr>locked_by := None, last_seen := None\<rparr> else s ! i))
   \<and> ((\<forall>r\<in>set s. identifier r = v \<longrightarrow> locked_by r \<noteq> Some client_id)
         \<longrightarrow> snd (releaseHandler client_id v s) = s)
   \<and> (\<forall>r\<in>set s. identifier r = v \<and> locked_by r \<noteq> Some client_id
         \<longrightarrow> r \<in> set (snd (releaseHandler client_id v s)))"
proof -
  have a: "(\<forall>r\<in>set s. identifier r = v \<longrightarrow> locked_by r \<noteq> Some client_id)
         \<longrightarrow> snd (releaseHandler client_id v s) = s"
    by (auto simp: releaseHandler_def intro!: map_idI)
  have b: "\<forall>r\<in>set s. identifier r = v \<and> locked_by r \<noteq> Some client_id
         \<longrightarrow> r \<in> set (snd (releaseHandler client_id v s))"
  proof (intro ballI impI)
    fix r assume "r \<in> set s" and h: "identifier r = v \<and> locked_by r \<noteq> Some client_id"
    then have "(\<lambda>r. if identifier r = v \<and> locked_by r = Some client_id
               then r\<lparr>locked_by := None, last_seen := None\<rparr> else r) r
          \<in> set (snd (releaseHandler client_id v s))"
      unfolding releaseHandler_def snd_conv set_map by (intro imageI)
    with h show "r \<in> set (snd (releaseHandler client_id v s))" by simp
  qed
  have c: "\<forall>i<length s. snd (releaseHandler client_id v s) ! i =
         (if identifier (s ! i) = v \<and> locked_by (s ! i) = Some client_id
          then (s ! i)\<lparr>locked_by := None, last_seen := None\<rparr> else s ! i)"
    by (simp add: releaseHandler_def)
  show ?thesis
    using a b c by (simp add: releaseHandler_def)
qed

theorem release_effect_witness:
  "identifier \<lparr>identifier = ''id-1'', locked_by = Some ''vm-b'',
      last_seen = Some (sqlite_timestamp (Unix 3 0 UTC))\<rparr> = ''id-1''
   \<and> locked_by \<lparr>identifier = ''id-1'', locked_by = Some ''vm-b'',
       last_seen = Some (sqlite_timestamp (Unix 3 0 UTC))\<rparr>
       \<noteq> Some ''vm-a''
   \<and> releaseHandler ''vm-a'' ''id-1''
       [\<lparr>identifier = ''id-1'', locked_by = Some ''vm-b'',
           last_seen = Some (sqlite_timestamp (Unix 3 0 UTC))\<rparr>]
     = (ReleaseSuccess,
        [\<lparr>identifier = ''id-1'', locked_by = Some ''vm-b'',
            last_seen = Some (sqlite_timestamp (Unix 3 0 UTC))\<rparr>])"
  using release_effect [of "''vm-a''" "''id-1''"
      "[\<lparr>identifier = ''id-1'', locked_by = Some ''vm-b'',
          last_seen = Some (sqlite_timestamp (Unix 3 0 UTC))\<rparr>]"]
  by (simp add: prod_eq_iff)

text \<open>
  C6. In every state that a sequence of requests reaches from the seeded table, a row has no
  holder exactly when it has no timestamp; and each of the four operations, as a handler and
  as its part on the store, keeps it so.
\<close>

theorem holder_iff_timestamp_invariant:
  "holder_iff_timestamp (run expandedIdentifiers requests)
   \<and> (holder_iff_timestamp s \<longrightarrow>
        holder_iff_timestamp (snd (allocateHandler now client_id s))
        \<and> holder_iff_timestamp (snd (allocate now client_id s))
        \<and> holder_iff_timestamp (snd (livenessHandler now client_id v s))
        \<and> holder_iff_timestamp (snd (liveness now client_id v s))
        \<and> holder_iff_timestamp (snd (releaseHandler client_id v s))
        \<and> holder_iff_timestamp (snd (releaseStaleIdentifiers now stale_timeout s)))"
proof -
  have "holder_iff_timestamp (preloadIdentifiers expandedIdentifiers [])"
    by (rule hit_preload) (simp add: holder_iff_timestamp_def)
  then have r: "holder_iff_timestamp (run expandedIdentifiers requests)"
    unfolding run_def by (rule fold_handle_invariant[rotated]) (rule hit_handle)
  show ?thesis
    using r hit_allocate hit_liveness hit_release hit_reclaim
    by (simp add: allocateHandler_def livenessHandler_def)
qed

theorem holder_iff_timestamp_invariant_witness:
  "holder_iff_timestamp
     [\<lparr>identifier = ''id-1'', locked_by = Some ''vm-a'',
         last_seen = Some (sqlite_timestamp (Unix 0 0 UTC))\<rparr>,
      \<lparr>identifier = ''id-2'', locked_by = None, last_seen = None\<rparr>]
   \<and> holder_iff_timestamp (snd (allocateHandler (Unix 1 0 UTC) ''vm-b''
     [\<lparr>identifier = ''id-1'', locked_by = Some ''vm-a'',
         last_seen = Some (sqlite_timestamp (Unix 0 0 UTC))\<rparr>,
      \<lparr>identifier = ''id-2'', locked_by = None, last_seen = None\<rparr>]))
   \<and> holder_iff_timestamp
        (run [''id-1'', ''id-2''] [Allocate (Unix 0 0 UTC) ''vm-a'',
              ReclaimStale (Unix 20 0 UTC) 10000000000])"
proof -
  have a: "holder_iff_timestamp
     [\<lparr>identifier = ''id-1'', locked_by = Some ''vm-a'',
         last_seen = Some (sqlite_timestamp (Unix 0 0 UTC))\<rparr>,
      \<lparr>identifier = ''id-2'', locked_by = None, last_seen = None\<rparr>]"
    by (simp add: holder_iff_timestamp_def)
  show ?thesis
    using a holder_iff_timestamp_invariant
      [of "[''id-1'', ''id-2'']" "[Allocate (Unix 0 0 UTC) ''vm-a'',
       ReclaimStale (Unix 20 0 UTC) 10000000000]"
          "[\<lparr>identifier = ''id-1'', locked_by = Some ''vm-a'',
              last_seen = Some (sqlite_timestamp (Unix 0 0 UTC))\<rparr>,
            \<lparr>identifier = ''id-2'', locked_by = None, last_seen = None\<rparr>]"
          "Unix 1 0 UTC" "''vm-b''"]
    by simp
qed

text \<open>
  C7. On a table that satisfies its \<^verbatim>\<open>UNIQUE\<close> constraint, the part of
  \<^verbatim>\<open>livenessHandler\<close> on the store answers 200 exactly when a row with the identifier exists
  and its holder is \<open>client_id\<close>. Then every row keeps its place, the row with that identifier
  gets the timestamp \<open>now\<close> and nothing else in it changes, and every other row is as it was.
  Every other answer leaves the table as it was, and the answer is 404 exactly when no row
  has the identifier.
\<close>

theorem renew_frame:
  assumes "unique_identifier s"
  shows "(fst (liveness now client_id v s) = StatusOK
            \<longleftrightarrow> (\<exists>r\<in>set s. identifier r = v \<and> locked_by r = Some client_id))
       \<and> (fst (liveness now client_id v s) = StatusOK
            \<longrightarrow> length (snd (liveness now client_id v s)) = length s
               \<and> (\<forall>i<length s. snd (liveness now client_id v s) ! i =
                     (if identifier (s ! i) = v then (s ! i)\<lparr>last_seen := Some (sqlite_timestamp now)\<rparr> else s ! i)))
       \<and> (fst (liveness now client_id v s) \<noteq> StatusOK
            \<longrightarrow> snd (liveness now client_id v s) = s)
       \<and> (fst (liveness now client_id v s) = NotFound \<longleftrightarrow> v \<notin> identifier ` set s)
       \<and> (client_id \<noteq> [] \<and> v \<noteq> []
             \<longrightarrow> livenessHandler now client_id v s = liveness now client_id v s)"
proof -
  have main: "(fst (liveness now client_id v s) = StatusOK
            \<longleftrightarrow> (\<exists>r\<in>set s. identifier r = v \<and> locked_by r = Some client_id))
       \<and> (fst (liveness now client_id v s) = StatusOK
            \<longrightarrow> length (snd (liveness now client_id v s)) = length s
               \<and> (\<forall>i<length s. snd (liveness now client_id v s) ! i =
                     (if identifier (s ! i) = v then (s ! i)\<lparr>last_seen := Some (sqlite_timestamp now)\<rparr> else s ! i)))
       \<and> (fst (liveness now client_id v s) \<noteq> StatusOK
            \<longrightarrow> snd (liveness now client_id v s) = s)
       \<and> (fst (liveness now client_id v s) = NotFound \<longleftrightarrow> v \<notin> identifier ` set s)"
  proof (cases "v \<in> identifier ` set s")
    case False
    then have "liveness now client_id v s = (NotFound, s)"
      by (simp add: liveness_def db_client_id_unknown)
    moreover have "\<not> (\<exists>r\<in>set s. identifier r = v \<and> locked_by r = Some client_id)"
      using False by (metis imageI)
    ultimately show ?thesis
      using False by simp
  next
    case True
    then obtain r where r: "r \<in> set s" "identifier r = v" by auto
    have d: "distinct (map identifier s)"
      using assms by (simp add: unique_identifier_def)
    have q: "db_client_id v s = scan_string [locked_by r]"
      using r d by (rule db_client_id_known)
    have only: "x = r" if "x \<in> set s" "identifier x = v" for x
      using that r d by (metis distinct_map inj_onD)
    show ?thesis
    proof (cases "locked_by r = Some client_id")
      case held: True
      have l: "liveness now client_id v s = (StatusOK, liveness_update now client_id v s)"
        using q held by (simp add: liveness_def)
      have u: "\<forall>i<length s. liveness_update now client_id v s ! i =
                       (if identifier (s ! i) = v then (s ! i)\<lparr>last_seen := Some (sqlite_timestamp now)\<rparr> else s ! i)"
      proof (intro allI impI)
        fix i assume i: "i < length s"
        show "liveness_update now client_id v s ! i =
                       (if identifier (s ! i) = v then (s ! i)\<lparr>last_seen := Some (sqlite_timestamp now)\<rparr> else s ! i)"
        proof (cases "identifier (s ! i) = v")
          case True
          then have "s ! i = r" using only i by simp
          then show ?thesis using i held r by (simp add: liveness_update_def)
        next
          case False
          then show ?thesis using i by (simp add: liveness_update_def)
        qed
      qed
      show ?thesis
        using l u r held True by (auto simp: liveness_update_def)
    next
      case other: False
      have l: "fst (liveness now client_id v s) \<noteq> StatusOK
             \<and> fst (liveness now client_id v s) \<noteq> NotFound
             \<and> snd (liveness now client_id v s) = s"
        using q other by (cases "locked_by r") (simp_all add: liveness_def)
      have "\<not> (\<exists>x\<in>set s. identifier x = v \<and> locked_by x = Some client_id)"
        using only other by blast
      then show ?thesis
        using l True by simp
    qed
  qed
  have handler: "(client_id \<noteq> [] \<and> v \<noteq> []
             \<longrightarrow> livenessHandler now client_id v s = liveness now client_id v s)"
    by (simp add: livenessHandler_def)
  show ?thesis
    using main handler by simp
qed

theorem renew_frame_witness:
  "unique_identifier
     [\<lparr>identifier = ''id-1'', locked_by = Some ''vm-a'',
         last_seen = Some (sqlite_timestamp (Unix 0 0 UTC))\<rparr>,
      \<lparr>identifier = ''id-2'', locked_by = None, last_seen = None\<rparr>]
   \<and> liveness (Unix 9 0 UTC) ''vm-a'' ''id-1''
     [\<lparr>identifier = ''id-1'', locked_by = Some ''vm-a'',
         last_seen = Some (sqlite_timestamp (Unix 0 0 UTC))\<rparr>,
      \<lparr>identifier = ''id-2'', locked_by = None, last_seen = None\<rparr>]
   = (StatusOK,
      [\<lparr>identifier = ''id-1'', locked_by = Some ''vm-a'',
          last_seen = Some (sqlite_timestamp (Unix 9 0 UTC))\<rparr>,
       \<lparr>identifier = ''id-2'', locked_by = None, last_seen = None\<rparr>])"
proof -
  have u: "unique_identifier
     [\<lparr>identifier = ''id-1'', locked_by = Some ''vm-a'',
         last_seen = Some (sqlite_timestamp (Unix 0 0 UTC))\<rparr>,
      \<lparr>identifier = ''id-2'', locked_by = None, last_seen = None\<rparr>]"
    by (simp add: unique_identifier_def)
  show ?thesis
    using u renew_frame [OF u, of "Unix 9 0 UTC" "''vm-a''" "''id-1''"]
    by (simp add: liveness_def db_client_id_def liveness_update_def)
qed

text \<open>
  C8. On a table that satisfies its \<^verbatim>\<open>UNIQUE\<close> constraint and for a \<open>client_id\<close> that holds
  no row, the two steps of \<^verbatim>\<open>allocateHandler\<close> answer 503 exactly when no row is free, and
  then the table is as it was; otherwise they answer with the identifier of a row that was
  free, and the table differs from the old one in that row alone, which now has the holder
  \<open>client_id\<close> and the timestamp \<open>now\<close>.
\<close>

theorem allocate_exhausted_iff:
  assumes "unique_identifier s" and "\<forall>r\<in>set s. locked_by r \<noteq> Some client_id"
  shows "(fst (allocate now client_id s) = ServiceUnavailable
            \<longleftrightarrow> (\<forall>r\<in>set s. locked_by r \<noteq> None))
       \<and> (fst (allocate now client_id s) = ServiceUnavailable
            \<longrightarrow> snd (allocate now client_id s) = s)
       \<and> (fst (allocate now client_id s) \<noteq> ServiceUnavailable
            \<longrightarrow> (\<exists>i<length s. locked_by (s ! i) = None
                   \<and> allocate now client_id s =
                       (AllocateResponse (identifier (s ! i)),
                        s[i := (s ! i)\<lparr>locked_by := Some client_id, last_seen := Some (sqlite_timestamp now)\<rparr>])))
       \<and> (client_id \<noteq> [] \<longrightarrow> allocateHandler now client_id s = allocate now client_id s)"
proof -
  have main: "(fst (allocate now client_id s) = ServiceUnavailable
            \<longleftrightarrow> (\<forall>r\<in>set s. locked_by r \<noteq> None))
       \<and> (fst (allocate now client_id s) = ServiceUnavailable
            \<longrightarrow> snd (allocate now client_id s) = s)
       \<and> (fst (allocate now client_id s) \<noteq> ServiceUnavailable
            \<longrightarrow> (\<exists>i<length s. locked_by (s ! i) = None
                   \<and> allocate now client_id s =
                       (AllocateResponse (identifier (s ! i)),
                        s[i := (s ! i)\<lparr>locked_by := Some client_id, last_seen := Some (sqlite_timestamp now)\<rparr>])))"
  proof (cases "\<forall>r\<in>set s. locked_by r \<noteq> None")
    case True
    then show ?thesis
      using allocate_exhausted[OF assms(2) True] by simp
  next
    case False
    then have "\<exists>r\<in>set s. locked_by r = None" by simp
    then obtain pre r post where sp: "s = pre @ r # post" "\<forall>x\<in>set pre. locked_by x \<noteq> None"
      "locked_by r = None"
      by (rule first_free_split)
    have d: "distinct (map identifier (pre @ r # post))"
      using assms(1) sp(1) by (simp add: unique_identifier_def)
    have a: "allocate now client_id s
           = (AllocateResponse (identifier r),
              pre @ r\<lparr>locked_by := Some client_id, last_seen := Some (sqlite_timestamp now)\<rparr> # post)"
      unfolding sp(1) using assms(2) sp d by (intro allocate_claims) simp_all
    have i: "length pre < length s" "s ! length pre = r"
      "s[length pre := r\<lparr>locked_by := Some client_id, last_seen := Some (sqlite_timestamp now)\<rparr>]
         = pre @ r\<lparr>locked_by := Some client_id, last_seen := Some (sqlite_timestamp now)\<rparr> # post"
      using sp(1) by simp_all
    have "\<exists>i<length s. locked_by (s ! i) = None
            \<and> allocate now client_id s =
                (AllocateResponse (identifier (s ! i)),
                 s[i := (s ! i)\<lparr>locked_by := Some client_id, last_seen := Some (sqlite_timestamp now)\<rparr>])"
      using a i sp(3) by (intro exI[of _ "length pre"]) simp
    then show ?thesis
      using False a by simp
  qed
  have handler: "(client_id \<noteq> [] \<longrightarrow> allocateHandler now client_id s = allocate now client_id s)"
    by (simp add: allocateHandler_def)
  show ?thesis
    using main handler by simp
qed

theorem allocate_exhausted_iff_witness:
  "unique_identifier
     [\<lparr>identifier = ''id-1'', locked_by = Some ''vm-a'',
         last_seen = Some (sqlite_timestamp (Unix 0 0 UTC))\<rparr>,
      \<lparr>identifier = ''id-2'', locked_by = None, last_seen = None\<rparr>]
   \<and> ''vm-b'' \<notin> set (holders
     [\<lparr>identifier = ''id-1'', locked_by = Some ''vm-a'',
         last_seen = Some (sqlite_timestamp (Unix 0 0 UTC))\<rparr>,
      \<lparr>identifier = ''id-2'', locked_by = None, last_seen = None\<rparr>])
   \<and> allocate (Unix 3 0 UTC) ''vm-b''
     [\<lparr>identifier = ''id-1'', locked_by = Some ''vm-a'',
         last_seen = Some (sqlite_timestamp (Unix 0 0 UTC))\<rparr>,
      \<lparr>identifier = ''id-2'', locked_by = None, last_seen = None\<rparr>]
   = (AllocateResponse ''id-2'',
      [\<lparr>identifier = ''id-1'', locked_by = Some ''vm-a'',
          last_seen = Some (sqlite_timestamp (Unix 0 0 UTC))\<rparr>,
       \<lparr>identifier = ''id-2'', locked_by = Some ''vm-b'',
           last_seen = Some (sqlite_timestamp (Unix 3 0 UTC))\<rparr>])"
proof -
  have u: "unique_identifier
     [\<lparr>identifier = ''id-1'', locked_by = Some ''vm-a'',
         last_seen = Some (sqlite_timestamp (Unix 0 0 UTC))\<rparr>,
      \<lparr>identifier = ''id-2'', locked_by = None, last_seen = None\<rparr>]"
    by (simp add: unique_identifier_def)
  have n: "\<forall>r\<in>set [\<lparr>identifier = ''id-1'', locked_by = Some ''vm-a'',
      last_seen = Some (sqlite_timestamp (Unix 0 0 UTC))\<rparr>,
                \<lparr>identifier = ''id-2'', locked_by = None, last_seen = None\<rparr>].
         locked_by r \<noteq> Some ''vm-b''"
    by simp
  show ?thesis
    using u n allocate_exhausted_iff [OF u n, of "Unix 3 0 UTC"]
    by (simp add: allocate_def existing_identifier_def claim_returning_def claim_update_def
        free_limit_1_def)
qed

text \<open>
  C9. \<^verbatim>\<open>expandPattern\<close> returns for every pattern whose first bracketed segment is not a
  well-formed range (no opening or no closing bracket, a closing bracket before the first
  opening one, a segment that does not split into two parts at a hyphen, a part that is not a
  number, or a first number above the second), and what it returns is the pattern itself,
  brackets included, as the only identifier.
\<close>

theorem expandPattern_malformed:
  assumes "\<not> well_formed_first_range p"
  shows "expandPattern p = Some [p]"
proof (cases "CHR ''['' \<notin> set p \<or> CHR '']'' \<notin> set p")
  case True
  then show ?thesis by (rule expandPattern_no_bracket)
next
  case False
  then have o: "CHR ''['' \<in> set p" and c: "CHR '']'' \<in> set p" by simp_all
  from o obtain pre r1 where p: "p = pre @ CHR ''['' # r1" and npre: "CHR ''['' \<notin> set pre"
    by (meson split_list_first)
  show ?thesis
  proof (cases "CHR '']'' \<in> set pre")
    case True
    then obtain q q' where q: "pre = q @ CHR '']'' # q'" "CHR '']'' \<notin> set q"
      by (meson split_list_first)
    have "CHR ''['' \<notin> set q" using npre q(1) by simp
    then have "expandPattern (q @ CHR '']'' # (q' @ CHR ''['' # r1))
               = Some [q @ CHR '']'' # (q' @ CHR ''['' # r1)]"
      using q(2) by (rule expandPattern_closing_first)
    then show ?thesis by (simp add: p q(1))
  next
    case False
    then have "CHR '']'' \<in> set r1" using c p by simp
    then obtain seg suf where r1: "r1 = seg @ CHR '']'' # suf" "CHR '']'' \<notin> set seg"
      by (meson split_list_first)
    have p': "p = pre @ CHR ''['' # seg @ CHR '']'' # suf"
      by (simp add: p r1(1))
    note e = expandPattern_segment[OF npre False r1(2), of suf, folded p']
    show ?thesis
    proof (cases "length (Split seg CHR ''-'') = 2")
      case False
      then show ?thesis by (simp add: e)
    next
      case True
      then obtain a b where ab: "seg = a @ CHR ''-'' # b" "CHR ''-'' \<notin> set a"
        "CHR ''-'' \<notin> set b" "Split seg CHR ''-'' = [a, b]"
        by (rule Split_two)
      have nb: "CHR '']'' \<notin> set a" "CHR '']'' \<notin> set b"
        using r1(2) ab(1) by simp_all
      have nwf: "\<not> (Atoi a = Some x \<and> Atoi b = Some y \<and> x \<le> y)" for x y
      proof
        assume h: "Atoi a = Some x \<and> Atoi b = Some y \<and> x \<le> y"
        have "p = pre @ CHR ''['' # a @ CHR ''-'' # b @ CHR '']'' # suf"
          by (simp add: p' ab(1))
        then have "well_formed_first_range p"
          unfolding well_formed_first_range_def using npre False nb ab(2,3) h by blast
        with assms show False by simp
      qed
      show ?thesis
      proof (cases "Atoi a")
        case None
        then show ?thesis by (simp add: e ab(4))
      next
        case (Some x)
        show ?thesis
        proof (cases "Atoi b")
          case None
          then show ?thesis by (simp add: e ab(4) Some)
        next
          case y: (Some y)
          then have "y < x" using nwf[of x y] Some by simp
          then show ?thesis by (simp add: e ab(4) Some y)
        qed
      qed
    qed
  qed
qed

theorem expandPattern_malformed_witness:
  "\<not> well_formed_first_range ''srv-[a-3]'' \<and> expandPattern ''srv-[a-3]'' = Some [''srv-[a-3]'']"
  using not_well_formed_example expandPattern_malformed [of "''srv-[a-3]''"] by simp

text \<open>
  C10. No state that a sequence of requests reaches from the seeded table has a row leased to
  the empty string: \<^verbatim>\<open>allocateHandler\<close> and \<^verbatim>\<open>livenessHandler\<close> answer 400 to an empty
  \<open>client_id\<close> and write nothing. In such a state \<^verbatim>\<open>releaseHandler\<close>, which checks nothing,
  answers success to an empty \<open>client_id\<close> and leaves the table as it was, whatever the
  identifier.
\<close>

theorem no_empty_holder_reachable:
  "no_empty_holder (run expandedIdentifiers requests)
   \<and> allocateHandler now [] s = (BadRequest, s)
   \<and> livenessHandler now [] v s = (BadRequest, s)
   \<and> releaseHandler [] v (run expandedIdentifiers requests)
       = (ReleaseSuccess, run expandedIdentifiers requests)"
  using neh_run[of expandedIdentifiers requests]
  by (simp add: release_empty_noop allocateHandler_def livenessHandler_def)

theorem no_empty_holder_reachable_witness:
  "no_empty_holder (run [''id-1'', ''id-2''] [Allocate (Unix 0 0 UTC) ''vm-a'',
                         Allocate (Unix 1 0 UTC) []])
   \<and> run [''id-1'', ''id-2''] [Allocate (Unix 0 0 UTC) ''vm-a'', Allocate (Unix 1 0 UTC) []]
       = [\<lparr>identifier = ''id-1'', locked_by = Some ''vm-a'',
           last_seen = Some (sqlite_timestamp (Unix 0 0 UTC))\<rparr>,
          \<lparr>identifier = ''id-2'', locked_by = None, last_seen = None\<rparr>]
   \<and> releaseHandler [] ''id-2'' (run [''id-1'', ''id-2''] [Allocate (Unix 0 0 UTC) ''vm-a'',
                          Allocate (Unix 1 0 UTC) []])
       = (ReleaseSuccess, run [''id-1'', ''id-2''] [Allocate (Unix 0 0 UTC) ''vm-a'',
                               Allocate (Unix 1 0 UTC) []])"
proof -
  have r: "run [''id-1'', ''id-2''] [Allocate (Unix 0 0 UTC) ''vm-a'', Allocate (Unix 1 0 UTC) []]
       = [\<lparr>identifier = ''id-1'', locked_by = Some ''vm-a'',
           last_seen = Some (sqlite_timestamp (Unix 0 0 UTC))\<rparr>,
          \<lparr>identifier = ''id-2'', locked_by = None, last_seen = None\<rparr>]"
    by (simp add: run_def preloadIdentifiers_def insert_or_ignore_def allocateHandler_def
        allocate_def existing_identifier_def claim_returning_def claim_update_def free_limit_1_def)
  show ?thesis
    using r no_empty_holder_reachable [of "[''id-1'', ''id-2'']" "[Allocate (Unix 0 0 UTC) ''vm-a'',
                                       Allocate (Unix 1 0 UTC) []]"]
    by simp
qed


end
